theory Spec2Isabelle
  imports Main "HOL-Library.AList"
begin

section \<open>The build pipeline of gulpfile.babel.js\<close>

text \<open>
  The gulpfile registers twelve gulp tasks.  Each task is embedded as a function on an
  explicit state: the module's global variables, the project's file tree, the
  gulp-cache store and a chronological trace of what the run launched, printed and
  notified.  The third-party collaborators the tasks call (Sass, autoprefixer, csso,
  front-matter, swig, html minifier, imagemin, webpack, workbox, gh-pages) are opaque:
  they are the fields of a record \<open>ext\<close> that every task takes as a parameter.
\<close>

subsection \<open>Glob patterns\<close>

text \<open>
  \<open>gulp.src\<close> and \<open>gulp.watch\<close> select paths by glob patterns.  The patterns of the
  gulpfile use literal characters, \<open>*\<close> inside a path segment, \<open>**\<close> as a whole segment,
  one \<open>{a,b}\<close> group, a leading \<open>!\<close> that negates a pattern of a list, and the option
  \<open>dot\<close>.  Without \<open>dot: true\<close> a segment that begins with a dot is matched only by a
  pattern segment that begins with a dot itself, and \<open>**\<close> does not descend into it.
  Paths are relative to the project root and use \<open>/\<close>.
\<close>

fun split_on :: "char \<Rightarrow> string \<Rightarrow> string list" where
  "split_on c [] = [[]]"
| "split_on c (x # xs) =
     (if x = c then [] # split_on c xs
      else (case split_on c xs of [] \<Rightarrow> [[x]] | y # ys \<Rightarrow> (x # y) # ys))"

definition basename :: "string \<Rightarrow> string" where
  "basename p = last (split_on CHR ''/'' p)"

definition begins :: "char \<Rightarrow> string \<Rightarrow> bool" where
  "begins c n = (case n of [] \<Rightarrow> False | x # _ \<Rightarrow> x = c)"

text \<open>One path segment against one pattern segment; \<open>*\<close> stands for any characters.\<close>

fun wild :: "string \<Rightarrow> string \<Rightarrow> bool" where
  "wild [] [] = True"
| "wild [] (c # cs) = False"
| "wild (p # ps) [] = (p = CHR ''*'' \<and> wild ps [])"
| "wild (p # ps) (c # cs) =
     (if p = CHR ''*'' then wild ps (c # cs) \<or> wild (p # ps) cs
      else p = c \<and> wild ps cs)"

definition seg_match :: "bool \<Rightarrow> string \<Rightarrow> string \<Rightarrow> bool" where
  "seg_match dot p n =
     (if begins CHR ''.'' n \<and> \<not> dot \<and> \<not> begins CHR ''.'' p then False else wild p n)"

fun segs_match :: "bool \<Rightarrow> string list \<Rightarrow> string list \<Rightarrow> bool" where
  "segs_match dot [] ns = (ns = [])"
| "segs_match dot (p # ps) [] = (p = ''**'' \<and> segs_match dot ps [])"
| "segs_match dot (p # ps) (n # ns) =
     (if p = ''**''
      then segs_match dot ps (n # ns)
           \<or> ((if begins CHR ''.'' n then dot else True) \<and> segs_match dot (p # ps) ns)
      else seg_match dot p n \<and> segs_match dot ps ns)"

text \<open>Brace expansion of the first \<open>{a,b,...}\<close> group of a pattern.\<close>

fun cut :: "char \<Rightarrow> string \<Rightarrow> (string \<times> string) option" where
  "cut c [] = None"
| "cut c (x # xs) =
     (if x = c then Some ([], xs)
      else (case cut c xs of None \<Rightarrow> None | Some (a, b) \<Rightarrow> Some (x # a, b)))"

definition braces :: "string \<Rightarrow> string list" where
  "braces pat =
     (case cut CHR ''{'' pat of
        None \<Rightarrow> [pat]
      | Some (pre, rest) \<Rightarrow>
          (case cut CHR ''}'' rest of
             None \<Rightarrow> [pat]
           | Some (alts, post) \<Rightarrow> map (\<lambda>a. pre @ a @ post) (split_on CHR '','' alts)))"

definition minimatch :: "bool \<Rightarrow> string \<Rightarrow> string \<Rightarrow> bool" where
  "minimatch dot pat p =
     list_ex (\<lambda>q. segs_match dot (split_on CHR ''/'' q) (split_on CHR ''/'' p)) (braces pat)"

text \<open>
  A list of patterns, as \<open>gulp.src\<close> reads it: a path is selected when a pattern without
  \<open>!\<close> matches it and no pattern with \<open>!\<close> does.
\<close>

definition selects :: "bool \<Rightarrow> string list \<Rightarrow> string \<Rightarrow> bool" where
  "selects dot globs p =
     (list_ex (\<lambda>g. \<not> begins CHR ''!'' g \<and> minimatch dot g p) globs
      \<and> \<not> list_ex (\<lambda>g. begins CHR ''!'' g \<and> minimatch dot (tl g) p) globs)"

text \<open>
  The base directory of a glob (with its trailing slash): the leading segments that hold
  no glob character, the last segment left out.  A file's path relative to its base is
  what \<open>gulp.dest\<close> appends to the output directory.
\<close>

definition magic :: "string \<Rightarrow> bool" where
  "magic seg = list_ex (\<lambda>c. c = CHR ''*'' \<or> c = CHR ''{'' \<or> c = CHR ''!'') seg"

definition glob_base :: "string \<Rightarrow> string" where
  "glob_base pat =
     concat (map (\<lambda>seg. seg @ ''/'')
       (takeWhile (\<lambda>seg. \<not> magic seg) (butlast (split_on CHR ''/'' pat))))"

subsection \<open>Files, streams and the output tree\<close>

type_synonym tree = "(string \<times> string) list"

type_synonym metadata = "(string \<times> string) list"

text \<open>\<open>{path: file.path, data: file.frontMatter || {}}\<close>\<close>

type_synonym pageInfo = "string \<times> metadata"

datatype val = Scalar string | Pages "pageInfo list"

datatype error = Error (stack: string)

text \<open>A vinyl file object, with the two properties the html task adds to it.\<close>

record vfile =
  path :: string
  base :: string
  contents :: string
  frontMatter :: "metadata option"
  contextData :: "(string \<times> val) list"

definition in_dir :: "string \<Rightarrow> string \<Rightarrow> bool" where
  "in_dir dir p = (p = dir \<or> take (Suc (length dir)) p = dir @ ''/'')"

text \<open>
  \<open>gulp.src(globs, {dot})\<close>: the files of the tree the patterns select, in the tree's
  enumeration order.  The tree holds files only, so \<open>nodir\<close> changes nothing.
\<close>

definition src :: "bool \<Rightarrow> string list \<Rightarrow> tree \<Rightarrow> vfile list" where
  "src dot globs t =
     map (\<lambda>(p, c). \<lparr>path = p, base = (case globs of [] \<Rightarrow> [] | g # _ \<Rightarrow> glob_base g),
                    contents = c, frontMatter = None, contextData = []\<rparr>)
       (filter (\<lambda>(p, c). selects dot globs p) t)"

definition relative :: "vfile \<Rightarrow> string" where
  "relative f = drop (length (base f)) (path f)"

text \<open>\<open>gulp.dest(dir)\<close>: every file is written at \<open>dir/relative\<close>, replacing what is there.\<close>

definition dest :: "string \<Rightarrow> vfile list \<Rightarrow> tree \<Rightarrow> tree" where
  "dest dir files t =
     fold (\<lambda>f. AList.update (dir @ ''/'' @ relative f) (contents f)) files t"

text \<open>
  A plug-in that fails on a file emits \<open>error\<close> on its stream.  The files before it have
  passed; the stream takes no further file.
\<close>

fun until_error :: "('a \<Rightarrow> error + 'b) \<Rightarrow> 'a list \<Rightarrow> 'b list \<times> error option" where
  "until_error f [] = ([], None)"
| "until_error f (x # xs) =
     (case f x of
        Inl e \<Rightarrow> ([], Some e)
      | Inr y \<Rightarrow> (case until_error f xs of (ys, r) \<Rightarrow> (y # ys, r)))"

definition on_contents :: "(string \<Rightarrow> error + string) \<Rightarrow> vfile \<Rightarrow> error + vfile" where
  "on_contents g f = (case g (contents f) of Inl e \<Rightarrow> Inl e | Inr c \<Rightarrow> Inr (f\<lparr>contents := c\<rparr>))"

subsection \<open>Trace, collaborators and state\<close>

datatype event =
    Launch "string list"
  | Finished string
  | Failed string error
  | ConsoleLog string
  | ConsoleWarn string
  | ConsoleError string
  | BrowserSync "string list" nat
  | Reload
  | Published "string list"

record ext =
  changed :: "string \<Rightarrow> bool"
  sassGlob :: "tree \<Rightarrow> string \<Rightarrow> string"
  sass :: "tree \<Rightarrow> string \<Rightarrow> error + string"
  autoprefixer :: "string \<Rightarrow> error + string"
  csso :: "string \<Rightarrow> error + string"
  front_matter :: "string \<Rightarrow> error + metadata \<times> string"
  swig :: "(string \<times> val) list \<Rightarrow> string \<Rightarrow> error + string"
  minifyHtml :: "string \<Rightarrow> error + string"
  imagemin :: "string \<Rightarrow> error + string"
  webpack :: "bool \<Rightarrow> tree \<Rightarrow> error option \<times> string \<times> tree"
  injectManifest :: "string \<Rightarrow> tree \<Rightarrow> error + string \<times> string list \<times> nat \<times> nat"
  prettyBytes :: "nat \<Rightarrow> string"
  ghPages :: "tree \<Rightarrow> error option"

text \<open>A \<open>gulp.watch\<close> registration: the globs, and the tasks started before \<open>reload\<close>.\<close>

record watcher =
  globs :: "string list"
  tasks :: "string list"

record state =
  DEV_MODE :: bool
  BASE_HREF :: string
  webpackInstance :: bool
  fs :: tree
  cache :: "(string \<times> string) list"
  trace :: "event list"
  watchers :: "watcher list"
  webpackWatching :: bool

text \<open>Lines 43 to 46: the state when the gulpfile has been loaded on a file tree.\<close>

definition load :: "tree \<Rightarrow> state" where
  "load t =
     (let dev = False in
      \<lparr>DEV_MODE = dev,
       BASE_HREF = (if dev then ''/'' else ''/AndroidAssetStudio/''),
       webpackInstance = False,
       fs = t, cache = [], trace = [], watchers = [], webpackWatching = False\<rparr>)"

definition say :: "event list \<Rightarrow> state \<Rightarrow> state" where
  "say evs s = s\<lparr>trace := trace s @ evs\<rparr>"

definition printWebpackStats :: "string \<Rightarrow> state \<Rightarrow> state" where
  "printWebpackStats stats s = say [ConsoleLog stats] s"

text \<open>
  \<open>errorHandler\<close> prints the error's stack and emits \<open>end\<close> on the stream that failed:
  the files that had passed go on down the pipe, the stream ends without an error and
  the task completes.
\<close>

definition errorHandler :: "error \<Rightarrow> state \<Rightarrow> state" where
  "errorHandler e s = say [ConsoleError (stack e)] s"

type_synonym task = "state \<Rightarrow> error option \<times> state"

definition handled :: "('a \<Rightarrow> error + 'b) \<Rightarrow> 'a list \<Rightarrow> state \<Rightarrow> 'b list \<times> state" where
  "handled f xs s =
     (case until_error f xs of
        (ys, None) \<Rightarrow> (ys, s)
      | (ys, Some e) \<Rightarrow> (ys, errorHandler e s))"

definition first_error :: "error option list \<Rightarrow> error option" where
  "first_error rs = (case filter (\<lambda>r. r \<noteq> None) rs of [] \<Rightarrow> None | r # _ \<Rightarrow> r)"

text \<open>The path with its last extension replaced, as gulp-sass and gulp-swig rename a file.\<close>

definition replaceExtension :: "string \<Rightarrow> string \<Rightarrow> string" where
  "replaceExtension p e =
     (if CHR ''.'' \<in> set (basename p)
      then rev (tl (dropWhile (\<lambda>c. c \<noteq> CHR ''.'') (rev p))) @ e
      else p @ e)"

definition ends_with :: "string \<Rightarrow> string \<Rightarrow> bool" where
  "ends_with suffix p = (drop (length p - length suffix) p = suffix)"

text \<open>
  \<open>String.prototype.replace\<close> with a global pattern of literal characters: the matches
  are found from left to right and do not overlap.
\<close>

fun replace_all :: "string \<Rightarrow> string \<Rightarrow> string \<Rightarrow> string" where
  "replace_all tok rep [] = []"
| "replace_all tok rep (c # cs) =
     (if tok \<noteq> [] \<and> take (length tok) (c # cs) = tok
      then rep @ replace_all tok rep (drop (length tok - 1) cs)
      else c # replace_all tok rep cs)"

text \<open>\<open>Object.assign(target, source)\<close> on objects with string keys.\<close>

definition assign :: "(string \<times> 'v) list \<Rightarrow> (string \<times> 'v) list \<Rightarrow> (string \<times> 'v) list" where
  "assign target source = fold (\<lambda>(k, v). AList.update k v) source target"

subsection \<open>The tasks without dependencies\<close>

text \<open>Lines 62 to 71.  The callback prints the statistics and completes the task; it
  does not look at \<open>err\<close>.  \<open>webpack.config.js\<close> is not among the sources: the bundles
  are taken to be emitted into \<open>dist\<close>, where the service worker step looks for them.\<close>

definition task_webpack :: "ext \<Rightarrow> task" where
  "task_webpack X s =
     (case webpack X (DEV_MODE s) (fs s) of
        (err, stats, assets) \<Rightarrow>
          (None,
           printWebpackStats stats
             (s\<lparr>webpackInstance := True,
                fs := fold (\<lambda>(n, c). AList.update (''dist/'' @ n) c) assets (fs s)\<rparr>)))"

text \<open>Lines 74 to 81.  gulp-cache keeps the optimised image by the contents of its input.\<close>

fun cached :: "(string \<Rightarrow> error + string) \<Rightarrow> vfile list \<Rightarrow> (string \<times> string) list
    \<Rightarrow> vfile list \<times> error option \<times> (string \<times> string) list" where
  "cached g [] c = ([], None, c)"
| "cached g (f # rest) c =
     (case map_of c (contents f) of
        Some out \<Rightarrow>
          (case cached g rest c of (ys, r, c') \<Rightarrow> (f\<lparr>contents := out\<rparr> # ys, r, c'))
      | None \<Rightarrow>
          (case g (contents f) of
             Inl e \<Rightarrow> ([], Some e, c)
           | Inr out \<Rightarrow>
               (case cached g rest (AList.update (contents f) out c) of
                  (ys, r, c') \<Rightarrow> (f\<lparr>contents := out\<rparr> # ys, r, c'))))"

definition task_res :: "ext \<Rightarrow> task" where
  "task_res X s =
     (case cached (imagemin X) (src False [''app/res/**/*''] (fs s)) (cache s) of
        (files, r, c) \<Rightarrow> (r, s\<lparr>fs := dest ''dist/res'' files (fs s), cache := c\<rparr>))"

text \<open>Lines 84 to 90.\<close>

definition task_copy :: task where
  "task_copy s =
     (let root = src True [''app/*'', ''!app/sw-prod.js''] (fs s);
          older = src True [''older-version/**/*''] (fs s)
      in (None, s\<lparr>fs := dest ''dist/older-version'' older (dest ''dist'' root (fs s))\<rparr>))"

text \<open>Lines 93 to 110.  gulp-changed lets a file pass when \<open>styles\<close> holds no file of its
  name, and asks the file system's time stamps otherwise.\<close>

definition task_styles :: "ext \<Rightarrow> task" where
  "task_styles X s =
     (let files0 = src False [''app/styles/app.entry.scss''] (fs s);
          files1 = filter (\<lambda>f. map_of (fs s) (''styles/'' @ relative f) = None
                                \<or> changed X (path f)) files0;
          files2 = map (\<lambda>f. f\<lparr>contents := sassGlob X (fs s) (contents f)\<rparr>) files1;
          (files3, s1) =
            handled (\<lambda>f. case sass X (fs s) (contents f) of
                            Inl e \<Rightarrow> Inl e
                          | Inr css \<Rightarrow> Inr (f\<lparr>path := replaceExtension (path f) ''.css'',
                                               contents := css\<rparr>)) files2 s;
          (files4, r4) = until_error (on_contents (autoprefixer X)) files3;
          (files5, r5) = (if \<not> DEV_MODE s then until_error (on_contents (csso X)) files4
                          else (files4, None));
          files6 = map (\<lambda>f. f\<lparr>path := (if ends_with ''.entry.css'' (path f)
                                           then take (length (path f) - 10) (path f) @ ''.css''
                                           else path f)\<rparr>) files5
      in (first_error [r4, r5], s1\<lparr>fs := dest ''dist'' files6 (fs s1)\<rparr>))"

text \<open>Lines 113 to 159, in the order of the pipe.\<close>

definition html_globs :: "string list" where
  "html_globs = [''app/html/**/*.html'', ''!app/html/**/_*.html'']"

definition html_frontMatter :: "ext \<Rightarrow> vfile \<Rightarrow> error + vfile" where
  "html_frontMatter X f =
     (case front_matter X (contents f) of
        Inl e \<Rightarrow> Inl e
      | Inr (attributes, body) \<Rightarrow> Inr (f\<lparr>contents := body, frontMatter := Some attributes\<rparr>))"

definition or_empty :: "metadata option \<Rightarrow> metadata" where
  "or_empty m = (case m of None \<Rightarrow> [] | Some d \<Rightarrow> d)"

definition page_info :: "vfile \<Rightarrow> pageInfo" where
  "page_info f = (path f, or_empty (frontMatter f))"

text \<open>
  The files as they reach the template renderer.  \<open>$.util.buffer()\<close> hands all files of
  the stream over as one array when the stream ends; the handler pushes a record of each
  onto \<open>pages\<close> and only then re-emits the files, so the \<open>pages\<close> array that every
  \<open>contextData.all_pages\<close> refers to is complete before the first file is rendered.
\<close>

definition html_contexts :: "ext \<Rightarrow> state \<Rightarrow> vfile list \<times> state" where
  "html_contexts X s =
     (let pages0 = [];
          (files1, s1) = handled (html_frontMatter X) (src False html_globs (fs s)) s;
          files2 = map (\<lambda>f. f\<lparr>contextData :=
                      assign [] (map (\<lambda>(k, v). (k, Scalar v)) (or_empty (frontMatter f)))\<rparr>) files1;
          filesArray = files2;
          pages = pages0 @ map page_info filesArray;
          files3 = map (\<lambda>f. f\<lparr>contextData :=
                      assign (contextData f) [(''all_pages'', Pages pages)]\<rparr>) filesArray
      in (files3, s1))"

definition html_render :: "ext \<Rightarrow> vfile \<Rightarrow> error + vfile" where
  "html_render X f =
     (case swig X (contextData f) (contents f) of
        Inl e \<Rightarrow> Inl e
      | Inr out \<Rightarrow> Inr (f\<lparr>path := replaceExtension (path f) ''.html'', contents := out\<rparr>))"

text \<open>The files after the template renderer, and after
  \<open>$.replace(/%%BASE_HREF%%/g, BASE_HREF)\<close>, as \<open>gulp.dest\<close> gets them.\<close>

definition html_rendered :: "ext \<Rightarrow> state \<Rightarrow> vfile list \<times> state" where
  "html_rendered X s = (case html_contexts X s of (files3, s1) \<Rightarrow> handled (html_render X) files3 s1)"

definition html_replaced :: "ext \<Rightarrow> state \<Rightarrow> vfile list \<times> state" where
  "html_replaced X s =
     (case html_rendered X s of
        (files4, s2) \<Rightarrow>
          (map (\<lambda>f. f\<lparr>contents := replace_all ''%%BASE_HREF%%'' (BASE_HREF s) (contents f)\<rparr>)
             files4,
           s2))"

text \<open>\<open>$.if('*.html', $.minifyHtml())\<close>\<close>

definition html_minify :: "ext \<Rightarrow> vfile \<Rightarrow> error + vfile" where
  "html_minify X f =
     (if wild ''*.html'' (basename (path f)) then on_contents (minifyHtml X) f else Inr f)"

definition task_html :: "ext \<Rightarrow> task" where
  "task_html X s =
     (let (files5, s2) = html_replaced X s;
          s3 = s2\<lparr>fs := dest ''.tmp'' files5 (fs s2)\<rparr>;
          (files6, r) = until_error (html_minify X) files5
      in (r, s3\<lparr>fs := dest ''dist'' files6 (fs s3)\<rparr>))"

text \<open>Lines 162 to 166.\<close>

definition task_clean :: task where
  "task_clean s =
     (None, s\<lparr>fs := filter (\<lambda>(p, c). \<not> in_dir ''.tmp'' p \<and> \<not> in_dir ''dist'' p) (fs s),
              cache := []\<rparr>)"

text \<open>Lines 212 to 231.  The promise of \<open>injectManifest\<close> is the task's result.\<close>

definition globPatterns :: "string list" where
  "globPatterns = [''*.html'', ''**/*.svg'', ''**/*.js'', ''**/*.css'']"

definition globIgnores :: "string list" where
  "globIgnores = [''older-version/**/*'']"

definition precache :: "tree \<Rightarrow> tree" where
  "precache t =
     map (\<lambda>(p, c). (drop 5 p, c))
       (filter (\<lambda>(p, c). take 5 p = ''dist/''
                  \<and> list_ex (\<lambda>g. minimatch False g (drop 5 p)) globPatterns
                  \<and> \<not> list_ex (\<lambda>g. minimatch False g (drop 5 p)) globIgnores) t)"

fun decimal :: "nat \<Rightarrow> string" where
  "decimal n =
     (if n < 10 then [char_of (48 + n)] else decimal (n div 10) @ [char_of (48 + n mod 10)])"

definition task_service_worker :: "ext \<Rightarrow> task" where
  "task_service_worker X s =
     (case map_of (fs s) ''app/sw-prod.js'' of
        None \<Rightarrow> (Some (Error ''app/sw-prod.js''), s)
      | Some swSrc \<Rightarrow>
          (case injectManifest X swSrc (precache (fs s)) of
             Inl e \<Rightarrow> (Some e, s)
           | Inr (sw, warnings, count, bytes) \<Rightarrow>
               (None,
                say (map ConsoleWarn warnings
                     @ [ConsoleLog (''A service worker was generated to precache ''
                          @ decimal count @ '' files totalling '' @ prettyBytes X bytes)])
                  (s\<lparr>fs := AList.update ''dist/sw.js'' sw (fs s)\<rparr>))))"

text \<open>Lines 243 to 246.\<close>

definition task_deploy :: "ext \<Rightarrow> task" where
  "task_deploy X s =
     (let files = src True [''dist/**/*''] (fs s)
      in (case ghPages X (map (\<lambda>f. (relative f, contents f)) files) of
            Some e \<Rightarrow> (Some e, s)
          | None \<Rightarrow> (None, say [Published (map relative files)] s)))"

subsection \<open>Running tasks\<close>

text \<open>
  The names and declared dependencies of the tasks, in the order of the \<open>gulp.task\<close>
  calls.
\<close>

definition registry :: "(string \<times> string list) list" where
  "registry =
     [(''webpack'', []), (''res'', []), (''copy'', []), (''styles'', []), (''html'', []),
      (''clean'', []), (''serve'', []), (''__serve__'', [''styles'', ''html'', ''webpack'']),
      (''serve:dist'', [''default'']), (''service-worker'', []), (''default'', [''clean'']),
      (''deploy'', [])]"

definition deps_of :: "string \<Rightarrow> string list" where
  "deps_of n = (case map_of registry n of None \<Rightarrow> [] | Some ds \<Rightarrow> ds)"



text \<open>
  \<open>gulp.start(names)\<close>: the tasks named are launched together and each runs to its end;
  the call fails when one of them failed.  A name that is not registered fails the call
  before anything runs.
\<close>

fun run_each :: "(string \<Rightarrow> task option) \<Rightarrow> string list \<Rightarrow> task" where
  "run_each tab [] s = (None, s)"
| "run_each tab (n # ns) s =
     (case tab n of
        None \<Rightarrow> (Some (Error n), s)
      | Some t \<Rightarrow>
          (case t s of
             (None, s1) \<Rightarrow> run_each tab ns (say [Finished n] s1)
           | (Some e, s1) \<Rightarrow>
               (case run_each tab ns (say [Failed n e] s1) of (r, s2) \<Rightarrow> (Some e, s2))))"

definition start :: "(string \<Rightarrow> task option) \<Rightarrow> string list \<Rightarrow> task" where
  "start tab names s =
     (if list_ex (\<lambda>n. tab n = None) names then (Some (Error ''task is not defined''), s)
      else run_each tab names (say [Launch names] s))"

text \<open>
  \<open>runSequence(stage, ..., cb)\<close>: the stages are started one after the other, each when
  the one before has ended; a failure ends the sequence with the error.
\<close>

fun runSequence :: "(string \<Rightarrow> task option) \<Rightarrow> string list list \<Rightarrow> task" where
  "runSequence tab [] s = (None, s)"
| "runSequence tab (stage # rest) s =
     (case start tab stage s of
        (None, s1) \<Rightarrow> runSequence tab rest s1
      | (Some e, s1) \<Rightarrow> (Some e, s1))"

text \<open>\<open>gulp.task(name, deps, fn)\<close>: \<open>fn\<close> runs when every task of \<open>deps\<close> has completed.\<close>

definition with_deps :: "(string \<Rightarrow> task option) \<Rightarrow> string list \<Rightarrow> task \<Rightarrow> task" where
  "with_deps tab deps fn s =
     (if deps = [] then fn s
      else (case start tab deps s of
              (None, s1) \<Rightarrow> fn s1
            | (Some e, s1) \<Rightarrow> (Some e, s1)))"

definition tab0 :: "ext \<Rightarrow> string \<Rightarrow> task option" where
  "tab0 X =
     map_of [(''webpack'', task_webpack X), (''res'', task_res X), (''copy'', task_copy),
             (''styles'', task_styles X), (''html'', task_html X), (''clean'', task_clean),
             (''service-worker'', task_service_worker X), (''deploy'', task_deploy X)]"

subsection \<open>The tasks that start other tasks\<close>

text \<open>Lines 174 to 197.\<close>

definition serve_watchers :: "watcher list" where
  "serve_watchers =
     [\<lparr>globs = [''app/html/**/*.html''], tasks = [''html'']\<rparr>,
      \<lparr>globs = [''app/**/*.{scss,css}''], tasks = [''styles'']\<rparr>,
      \<lparr>globs = [''app/res/**/*''], tasks = []\<rparr>]"

definition serve_fn :: task where
  "serve_fn s =
     (let s1 = say [BrowserSync [''.tmp'', ''dist'', ''app''] 3000] s;
          s2 = s1\<lparr>watchers := watchers s1 @ serve_watchers\<rparr>
      in (None, if webpackInstance s2 then s2\<lparr>webpackWatching := True\<rparr> else s2))"

definition task_serve_inner :: "ext \<Rightarrow> task" where
  "task_serve_inner X = with_deps (tab0 X) (deps_of ''__serve__'') serve_fn"

definition tab1 :: "ext \<Rightarrow> string \<Rightarrow> task option" where
  "tab1 X = (tab0 X)(''__serve__'' \<mapsto> task_serve_inner X)"

text \<open>Lines 169 to 172.\<close>

definition task_serve :: "ext \<Rightarrow> task" where
  "task_serve X s = runSequence (tab1 X) [[''__serve__'']] (s\<lparr>DEV_MODE := True\<rparr>)"

text \<open>Lines 234 to 240.\<close>

definition default_sequence :: "string list list" where
  "default_sequence = [[''styles''], [''webpack'', ''html'', ''res'', ''copy''], [''service-worker'']]"

definition task_default :: "ext \<Rightarrow> task" where
  "task_default X =
     with_deps (tab1 X) (deps_of ''default'') (runSequence (tab1 X) default_sequence)"

definition tab2 :: "ext \<Rightarrow> string \<Rightarrow> task option" where
  "tab2 X = (tab1 X)(''serve'' \<mapsto> task_serve X, ''default'' \<mapsto> task_default X)"

text \<open>Lines 200 to 210.\<close>

definition task_serve_dist :: "ext \<Rightarrow> task" where
  "task_serve_dist X =
     with_deps (tab2 X) (deps_of ''serve:dist'') (\<lambda>s. (None, say [BrowserSync [''dist''] 3001] s))"

definition tab :: "ext \<Rightarrow> string \<Rightarrow> task option" where
  "tab X = (tab2 X)(''serve:dist'' \<mapsto> task_serve_dist X)"

subsection \<open>The process: command line, file changes, bundler rebuilds\<close>

text \<open>
  \<open>gulp.watch(globs, [name, reload])\<close> starts the task named with \<open>reload\<close> as the callback
  of the run; \<open>gulp.watch(globs, reload)\<close> calls \<open>reload\<close> at once.
\<close>

definition watches :: "watcher \<Rightarrow> string \<Rightarrow> bool" where
  "watches w p = list_ex (\<lambda>g. minimatch False g p) (globs w)"


definition fire :: "ext \<Rightarrow> watcher \<Rightarrow> state \<Rightarrow> state" where
  "fire X w s =
     (if tasks w = [] then say [Reload] s
      else say [Reload] (snd (start (tab X) (tasks w) s)))"

definition on_change :: "ext \<Rightarrow> string \<Rightarrow> state \<Rightarrow> state" where
  "on_change X p s = fold (fire X) (filter (\<lambda>w. watches w p) (watchers s)) s"

text \<open>The callback of \<open>webpackInstance.watch\<close> (lines 192 to 195).\<close>

definition on_rebuild :: "ext \<Rightarrow> state \<Rightarrow> state" where
  "on_rebuild X s =
     (if webpackWatching s
      then (case webpack X (DEV_MODE s) (fs s) of
              (err, stats, assets) \<Rightarrow>
                say [Reload]
                  (printWebpackStats stats
                     (s\<lparr>fs := fold (\<lambda>(n, c). AList.update (''dist/'' @ n) c) assets (fs s)\<rparr>)))
      else s)"

datatype input = Run string | Change string | Rebuild

fun step :: "ext \<Rightarrow> input \<Rightarrow> state \<Rightarrow> state" where
  "step X (Run n) s = snd (start (tab X) [n] s)"
| "step X (Change p) s = on_change X p s"
| "step X Rebuild s = on_rebuild X s"

definition exec :: "ext \<Rightarrow> input list \<Rightarrow> state \<Rightarrow> state" where
  "exec X ins s = fold (step X) ins s"

subsection \<open>Notions the properties are stated with\<close>


text \<open>The events of a run that are not console output.\<close>

fun console :: "event \<Rightarrow> bool" where
  "console (ConsoleLog l) = True"
| "console (ConsoleWarn l) = True"
| "console (ConsoleError l) = True"
| "console e = False"

definition milestones :: "event list \<Rightarrow> event list" where
  "milestones evs = filter (\<lambda>e. \<not> console e) evs"

definition keeps :: "(state \<Rightarrow> 'a) \<Rightarrow> task \<Rightarrow> bool" where
  "keeps g t = (\<forall>s. g (snd (t s)) = g s)"

definition all_keep :: "(state \<Rightarrow> 'a) \<Rightarrow> (string \<Rightarrow> task option) \<Rightarrow> bool" where
  "all_keep g tb = (\<forall>n t. tb n = Some t \<longrightarrow> keeps g t)"




subsection \<open>A small project and collaborators to run the tasks on\<close>

definition demo_tree :: tree where
  "demo_tree =
     [(''app/html/a.html'', ''A<base href=%%BASE_HREF%%>''), (''app/html/b.html'', ''Bb''),
      (''app/html/_nav.html'', ''Nn''), (''app/styles/app.entry.scss'', ''s''),
      (''app/res/i.png'', ''p''), (''app/sw-prod.js'', ''w'')]"

text \<open>Collaborators that always succeed; the front matter of a file is its first
  character, under the key \<open>title\<close>.\<close>

definition demo_ext :: ext where
  "demo_ext =
     \<lparr>changed = (\<lambda>p. True), sassGlob = (\<lambda>t c. c), sass = (\<lambda>t c. Inr c),
      autoprefixer = Inr, csso = Inr,
      front_matter = (\<lambda>c. Inr ([(''title'', take 1 c)], drop 1 c)),
      swig = (\<lambda>ctx c. Inr c), minifyHtml = Inr, imagemin = Inr,
      webpack = (\<lambda>dev t. (None, ''ok'', [(''app.js'', ''j'')])),
      injectManifest = (\<lambda>sw t. Inr (sw, [], length t, 0)),
      prettyBytes = (\<lambda>n. ''0 B''), ghPages = (\<lambda>t. None)\<rparr>"







text \<open>The token occurs in a text.\<close>

fun occurs :: "string \<Rightarrow> string \<Rightarrow> bool" where
  "occurs tok [] = (tok = [])"
| "occurs tok (c # cs) = (take (length tok) (c # cs) = tok \<or> occurs tok cs)"




text \<open>What the steps of a build read of the state, and a task whose result and whose
  effect on it depend on nothing else.\<close>

definition core :: "state \<Rightarrow> bool \<times> string \<times> tree \<times> (string \<times> string) list" where
  "core s = (DEV_MODE s, BASE_HREF s, fs s, cache s)"


subsection \<open>The dependency resolver of the specification\<close>

text \<open>
  The build file names its tasks and their dependencies and leaves the ordering to the task
  runner it is loaded by. The specification describes that ordering as a component of its own,
  the dependency resolver, which is not part of the build file. It is written down here from
  the words of the specification, so that the statement about cyclic step graphs has a
  subject.
\<close>











section \<open>Properties\<close>

subsection \<open>The base path\<close>

lemma say_fields [simp]:
  "DEV_MODE (say evs s) = DEV_MODE s" "BASE_HREF (say evs s) = BASE_HREF s"
  "webpackInstance (say evs s) = webpackInstance s" "fs (say evs s) = fs s"
  "cache (say evs s) = cache s" "trace (say evs s) = trace s @ evs"
  "watchers (say evs s) = watchers s" "webpackWatching (say evs s) = webpackWatching s"
  by (simp_all add: say_def)

lemma handled_cases:
  "handled f xs s = (fst (until_error f xs), s)
   \<or> (\<exists>e. handled f xs s = (fst (until_error f xs), errorHandler e s))"
  by (auto simp: handled_def split: prod.splits option.splits)

lemma handled_BASE_HREF: "handled f xs s = (ys, s1) \<Longrightarrow> BASE_HREF s1 = BASE_HREF s"
  using handled_cases [of f xs s] by (auto simp: errorHandler_def)

lemma task_webpack_BASE_HREF: "BASE_HREF (snd (task_webpack X s)) = BASE_HREF s"
  by (simp add: task_webpack_def printWebpackStats_def split: prod.splits)

lemma task_res_BASE_HREF: "BASE_HREF (snd (task_res X s)) = BASE_HREF s"
  by (simp add: task_res_def split: prod.splits)

lemma task_copy_BASE_HREF: "BASE_HREF (snd (task_copy s)) = BASE_HREF s"
  by (simp add: task_copy_def Let_def)

lemma task_styles_BASE_HREF: "BASE_HREF (snd (task_styles X s)) = BASE_HREF s"
  by (auto simp: task_styles_def Let_def split: prod.splits dest: handled_BASE_HREF)

lemma html_contexts_BASE_HREF: "html_contexts X s = (fs3, s1) \<Longrightarrow> BASE_HREF s1 = BASE_HREF s"
  by (auto simp: html_contexts_def Let_def split: prod.splits dest: handled_BASE_HREF)

lemma html_rendered_BASE_HREF: "html_rendered X s = (fs4, s2) \<Longrightarrow> BASE_HREF s2 = BASE_HREF s"
  by (auto simp: html_rendered_def split: prod.splits
      dest!: handled_BASE_HREF html_contexts_BASE_HREF)

lemma task_html_BASE_HREF: "BASE_HREF (snd (task_html X s)) = BASE_HREF s"
  by (auto simp: task_html_def html_replaced_def Let_def split: prod.splits
      dest: html_rendered_BASE_HREF)

lemma task_clean_BASE_HREF: "BASE_HREF (snd (task_clean s)) = BASE_HREF s"
  by (simp add: task_clean_def)

lemma task_service_worker_BASE_HREF: "BASE_HREF (snd (task_service_worker X s)) = BASE_HREF s"
  by (simp add: task_service_worker_def split: option.splits sum.splits prod.splits)

lemma task_deploy_BASE_HREF: "BASE_HREF (snd (task_deploy X s)) = BASE_HREF s"
  by (simp add: task_deploy_def Let_def split: option.splits)

text \<open>What every task of a table keeps, a run of tasks of the table keeps.\<close>

lemma run_each_keeps:
  assumes "all_keep g tb" and "\<And>evs s. g (say evs s) = g s"
  shows "g (snd (run_each tb ns s)) = g s"
  using assms
proof (induction ns arbitrary: s)
  case Nil
  then show ?case by simp
next
  case (Cons n ns)
  show ?case
  proof (cases "tb n")
    case None
    then show ?thesis by simp
  next
    case (Some t)
    with Cons.prems have k: "g (snd (t s)) = g s" by (simp add: all_keep_def keeps_def)
    obtain r s1 where ts: "t s = (r, s1)" by (cases "t s")
    with k have g1: "g s1 = g s" by simp
    show ?thesis
    proof (cases r)
      case None
      with Some ts g1 Cons.IH [OF Cons.prems, of "say [Finished n] s1"] Cons.prems(2)
      show ?thesis by simp
    next
      case (Some e)
      with \<open>tb n = Some t\<close> ts g1 Cons.IH [OF Cons.prems, of "say [Failed n e] s1"] Cons.prems(2)
      show ?thesis by (simp add: case_prod_unfold)
    qed
  qed
qed

lemma start_keeps:
  assumes "all_keep g tb" and "\<And>evs s. g (say evs s) = g s"
  shows "g (snd (start tb ns s)) = g s"
  using run_each_keeps [OF assms, of ns "say [Launch ns] s"] assms(2)
  by (simp add: start_def)

lemma runSequence_keeps:
  assumes "all_keep g tb" and "\<And>evs s. g (say evs s) = g s"
  shows "g (snd (runSequence tb stages s)) = g s"
proof (induction stages arbitrary: s)
  case Nil
  then show ?case by simp
next
  case (Cons st rest)
  obtain r s1 where st: "start tb st s = (r, s1)" by (cases "start tb st s")
  with start_keeps [OF assms, of st s] have "g s1 = g s" by simp
  with st Cons.IH [of s1] show ?case by (cases r) simp_all
qed

lemma with_deps_keeps:
  assumes "all_keep g tb" and "\<And>evs s. g (say evs s) = g s" and "keeps g fn"
  shows "keeps g (with_deps tb deps fn)"
  unfolding keeps_def
proof
  fix s
  obtain r s1 where st: "start tb deps s = (r, s1)" by (cases "start tb deps s")
  with start_keeps [OF assms(1,2), of deps s] have "g s1 = g s" by simp
  with st assms(3) show "g (snd (with_deps tb deps fn s)) = g s"
    by (cases r) (simp_all add: with_deps_def keeps_def)
qed

lemma tab0_keeps_BASE_HREF: "all_keep BASE_HREF (tab0 X)"
  by (auto simp: all_keep_def keeps_def tab0_def task_webpack_BASE_HREF task_res_BASE_HREF
      task_copy_BASE_HREF task_styles_BASE_HREF task_html_BASE_HREF task_clean_BASE_HREF
      task_service_worker_BASE_HREF task_deploy_BASE_HREF split: if_splits)

lemma serve_fn_BASE_HREF: "keeps BASE_HREF serve_fn"
  by (simp add: keeps_def serve_fn_def Let_def)

lemma tab1_keeps_BASE_HREF: "all_keep BASE_HREF (tab1 X)"
  using tab0_keeps_BASE_HREF [of X]
    with_deps_keeps [OF tab0_keeps_BASE_HREF, where fn = serve_fn and X1 = X
      and deps = "deps_of ''__serve__''"]
  by (auto simp: all_keep_def tab1_def task_serve_inner_def serve_fn_BASE_HREF split: if_splits)

lemma task_serve_BASE_HREF: "keeps BASE_HREF (task_serve X)"
  by (simp add: keeps_def task_serve_def runSequence_keeps [OF tab1_keeps_BASE_HREF]
      del: runSequence.simps)

lemma task_default_BASE_HREF: "keeps BASE_HREF (task_default X)"
  unfolding task_default_def
  by (rule with_deps_keeps [OF tab1_keeps_BASE_HREF])
     (simp_all add: keeps_def runSequence_keeps [OF tab1_keeps_BASE_HREF])

lemma tab2_keeps_BASE_HREF: "all_keep BASE_HREF (tab2 X)"
  using tab1_keeps_BASE_HREF [of X] task_serve_BASE_HREF [of X] task_default_BASE_HREF [of X]
  by (auto simp: all_keep_def tab2_def split: if_splits)

lemma tab_keeps_BASE_HREF: "all_keep BASE_HREF (tab X)"
  using tab2_keeps_BASE_HREF [of X]
    with_deps_keeps [OF tab2_keeps_BASE_HREF, where X1 = X and deps = "deps_of ''serve:dist''"
      and fn = "\<lambda>s. (None, say [BrowserSync [''dist''] 3001] s)"]
  by (auto simp: all_keep_def tab_def task_serve_dist_def keeps_def split: if_splits)

lemma fire_BASE_HREF: "BASE_HREF (fire X w s) = BASE_HREF s"
  using start_keeps [OF tab_keeps_BASE_HREF, of X "tasks w" s]
  by (simp add: fire_def)

lemma on_change_BASE_HREF: "BASE_HREF (on_change X p s) = BASE_HREF s"
proof -
  have "BASE_HREF (fold (fire X) ws s) = BASE_HREF s" for ws
    by (induction ws arbitrary: s) (simp_all add: fire_BASE_HREF)
  then show ?thesis by (simp add: on_change_def)
qed

lemma on_rebuild_BASE_HREF: "BASE_HREF (on_rebuild X s) = BASE_HREF s"
  by (simp add: on_rebuild_def printWebpackStats_def split: prod.splits)

lemma step_BASE_HREF: "BASE_HREF (step X i s) = BASE_HREF s"
  using start_keeps [OF tab_keeps_BASE_HREF, of X _ s]
  by (cases i) (simp_all add: on_change_BASE_HREF on_rebuild_BASE_HREF)

lemma exec_BASE_HREF: "BASE_HREF (exec X ins s) = BASE_HREF s"
  unfolding exec_def by (induction ins arbitrary: s) (simp_all add: step_BASE_HREF)

lemma task_webpack_DEV_MODE: "DEV_MODE (snd (task_webpack X s)) = DEV_MODE s"
  by (simp add: task_webpack_def printWebpackStats_def split: prod.splits)

lemma handled_DEV_MODE: "handled f xs s = (ys, s1) \<Longrightarrow> DEV_MODE s1 = DEV_MODE s"
  using handled_cases [of f xs s] by (auto simp: errorHandler_def)

lemma task_styles_DEV_MODE: "DEV_MODE (snd (task_styles X s)) = DEV_MODE s"
  by (auto simp: task_styles_def Let_def split: prod.splits dest: handled_DEV_MODE)

lemma task_html_DEV_MODE: "DEV_MODE (snd (task_html X s)) = DEV_MODE s"
  by (auto simp: task_html_def html_replaced_def html_rendered_def html_contexts_def Let_def
      split: prod.splits dest!: handled_DEV_MODE)

lemma tab0_keeps_DEV_MODE: "all_keep DEV_MODE (tab0 X)"
  by (auto simp: all_keep_def keeps_def tab0_def task_webpack_DEV_MODE task_styles_DEV_MODE
        task_html_DEV_MODE task_res_def task_copy_def task_clean_def task_service_worker_def
        task_deploy_def Let_def split: if_splits prod.splits option.splits sum.splits)

lemma tab1_keeps_DEV_MODE: "all_keep DEV_MODE (tab1 X)"
  using tab0_keeps_DEV_MODE [of X]
    with_deps_keeps [OF tab0_keeps_DEV_MODE, where fn = serve_fn and X1 = X
      and deps = "deps_of ''__serve__''"]
  by (auto simp: all_keep_def tab1_def task_serve_inner_def keeps_def serve_fn_def Let_def
      split: if_splits)

lemma serve_enters_dev_mode: "DEV_MODE (snd (task_serve X s))"
  by (simp add: task_serve_def runSequence_keeps [OF tab1_keeps_DEV_MODE]
      del: runSequence.simps)

text \<open>
  C9.  \<open>BASE_HREF\<close> is computed once, when the gulpfile is loaded and \<open>DEV_MODE\<close> is
  false.  Whatever is run afterwards (tasks from the command line, file changes, bundler
  rebuilds) it stays \<open>/AndroidAssetStudio/\<close>.  In particular the \<open>serve\<close> task sets
  \<open>DEV_MODE\<close> and leaves \<open>BASE_HREF\<close> as it is, and the html step of a development build
  substitutes that same value for the placeholder.
\<close>

theorem BASE_HREF_constant:
  "BASE_HREF (exec X ins (load t)) = ''/AndroidAssetStudio/''
   \<and> DEV_MODE (snd (task_serve X (exec X ins (load t))))
   \<and> BASE_HREF (snd (task_serve X (exec X ins (load t)))) = ''/AndroidAssetStudio/''
   \<and> fst (html_replaced X (snd (task_serve X (exec X ins (load t)))))
       = map (\<lambda>f. f\<lparr>contents := replace_all ''%%BASE_HREF%%'' ''/AndroidAssetStudio/'' (contents f)\<rparr>)
           (fst (html_rendered X (snd (task_serve X (exec X ins (load t))))))"
proof -
  have a: "BASE_HREF (exec X ins (load t)) = ''/AndroidAssetStudio/''"
    by (simp add: exec_BASE_HREF load_def)
  have b: "BASE_HREF (snd (task_serve X s)) = BASE_HREF s" for s
    using task_serve_BASE_HREF [of X] by (simp add: keeps_def)
  show ?thesis
    by (simp add: a b serve_enters_dev_mode html_replaced_def case_prod_unfold)
qed

subsection \<open>Stages and verdicts\<close>

lemma milestones_simps [simp]:
  "milestones [] = []"
  "milestones (e # evs) = (if console e then milestones evs else e # milestones evs)"
  by (simp_all add: milestones_def)


lemma handled_fs: "handled f xs s = (ys, s1) \<Longrightarrow> fs s1 = fs s"
  using handled_cases [of f xs s] by (auto simp: errorHandler_def)








lemma milestones_console [simp]:
  "milestones (map ConsoleWarn ws) = []"
  by (induction ws) (simp_all add: milestones_def)



lemma milestones_append [simp]: "milestones (a @ b) = milestones a @ milestones b"
  by (simp add: milestones_def)

















subsection \<open>The default target\<close>








subsection \<open>Failures\<close>
















subsection \<open>Watching\<close>
























subsection \<open>The html step\<close>

lemma take_is_append: "take (length u) x = u \<longleftrightarrow> (\<exists>z. x = u @ z)"
  by (metis append_eq_conv_conj append_take_drop_id)

lemma occurs_iff: "occurs tok s \<longleftrightarrow> (\<exists>pre post. s = pre @ tok @ post)"
proof (induction s)
  case Nil
  then show ?case by auto
next
  case (Cons c cs)
  show ?case
  proof
    assume "occurs tok (c # cs)"
    then consider "take (length tok) (c # cs) = tok" | "occurs tok cs" by auto
    then show "\<exists>pre post. c # cs = pre @ tok @ post"
    proof cases
      case 1
      then obtain z where "c # cs = tok @ z" using take_is_append by blast
      then have "c # cs = [] @ tok @ z" by simp
      then show ?thesis by blast
    next
      case 2
      with Cons.IH obtain pre post where "cs = pre @ tok @ post" by blast
      then have "c # cs = (c # pre) @ tok @ post" by simp
      then show ?thesis by blast
    qed
  next
    assume "\<exists>pre post. c # cs = pre @ tok @ post"
    then obtain pre post where e: "c # cs = pre @ tok @ post" by blast
    show "occurs tok (c # cs)"
    proof (cases pre)
      case Nil
      with e have "take (length tok) (c # cs) = tok" using take_is_append by auto
      then show ?thesis by simp
    next
      case (Cons a pre')
      with e have "cs = pre' @ tok @ post" by simp
      with Cons.IH have "occurs tok cs" by blast
      then show ?thesis by simp
    qed
  qed
qed

text \<open>
  What the output of a replacement begins with, the input begins with, unless a
  replacement starts inside it.
\<close>

lemma replace_all_prefix:
  "replace_all tok rep s = u @ z \<Longrightarrow>
   (\<exists>z'. s = u @ z') \<or> (\<exists>g w y. u = g @ w \<and> w \<noteq> [] \<and> w @ z = rep @ y)"
proof (induction tok rep s arbitrary: u z rule: replace_all.induct)
  case (1 tok rep)
  then show ?case by simp
next
  case (2 tok rep c cs)
  show ?case
  proof (cases u)
    case Nil
    then show ?thesis by simp
  next
    case (Cons a u')
    show ?thesis
    proof (cases "tok \<noteq> [] \<and> take (length tok) (c # cs) = tok")
      case True
      with "2.prems" have "u @ z = rep @ replace_all tok rep (drop (length tok - 1) cs)"
        by simp
      with Cons have "u = [] @ u \<and> u \<noteq> [] \<and>
          u @ z = rep @ replace_all tok rep (drop (length tok - 1) cs)" by simp
      then show ?thesis by blast
    next
      case False
      then have "replace_all tok rep (c # cs) = c # replace_all tok rep cs" by auto
      with "2.prems" Cons have e: "a = c" "replace_all tok rep cs = u' @ z" by auto
      from "2.IH"(2) [OF False e(2)] consider z' where "cs = u' @ z'"
        | g w y where "u' = g @ w" "w \<noteq> []" "w @ z = rep @ y" by blast
      then show ?thesis
      proof cases
        case 1
        with e(1) Cons show ?thesis by simp
      next
        case 2
        with Cons have "u = (a # g) @ w \<and> w \<noteq> [] \<and> w @ z = rep @ y" by simp
        then show ?thesis by blast
      qed
    qed
  qed
qed

lemma occurs_after_rep:
  "tok \<noteq> [] \<Longrightarrow> hd tok \<notin> set r \<Longrightarrow> occurs tok (r @ out) \<Longrightarrow> occurs tok out"
proof (induction r)
  case Nil
  then show ?case by simp
next
  case (Cons a r)
  from Cons.prems(3) consider "take (length tok) (a # r @ out) = tok" | "occurs tok (r @ out)"
    by auto
  then show ?case
  proof cases
    case 1
    with Cons.prems(1) have "hd tok = a" by (cases tok) auto
    with Cons.prems(2) show ?thesis by simp
  next
    case 2
    with Cons.IH Cons.prems(1,2) show ?thesis by auto
  qed
qed

lemma replace_all_clean:
  "tok \<noteq> [] \<Longrightarrow> hd tok \<notin> set rep \<Longrightarrow> last tok \<notin> set rep \<Longrightarrow> length tok \<le> length rep
   \<Longrightarrow> \<not> occurs tok (replace_all tok rep s)"
proof (induction tok rep s rule: replace_all.induct)
  case (1 tok rep)
  then show ?case by simp
next
  case (2 tok rep c cs)
  show ?case
  proof (cases "tok \<noteq> [] \<and> take (length tok) (c # cs) = tok")
    case True
    from "2.IH"(1) [OF True "2.prems"] have
      ih: "\<not> occurs tok (replace_all tok rep (drop (length tok - 1) cs))" .
    from True have eq: "replace_all tok rep (c # cs)
        = rep @ replace_all tok rep (drop (length tok - 1) cs)" by simp
    show ?thesis
    proof
      assume "occurs tok (replace_all tok rep (c # cs))"
      then have "occurs tok (rep @ replace_all tok rep (drop (length tok - 1) cs))"
        unfolding eq .
      from occurs_after_rep [OF "2.prems"(1) "2.prems"(2) this] ih show False by simp
    qed
  next
    case False
    from "2.IH"(2) [OF False "2.prems"] have ih: "\<not> occurs tok (replace_all tok rep cs)" .
    from False have eq: "replace_all tok rep (c # cs) = c # replace_all tok rep cs" by auto
    show ?thesis
    proof
      assume o: "occurs tok (replace_all tok rep (c # cs))"
      then have "occurs tok (c # replace_all tok rep cs)" unfolding eq .
      with ih have "take (length tok) (c # replace_all tok rep cs) = tok" by simp
      then obtain z where "c # replace_all tok rep cs = tok @ z"
        using take_is_append by blast
      with eq have "replace_all tok rep (c # cs) = tok @ z" by simp
      from replace_all_prefix [OF this] consider z' where "c # cs = tok @ z'"
        | g w y where "tok = g @ w" "w \<noteq> []" "w @ z = rep @ y" by blast
      then show False
      proof cases
        case 1
        then have "take (length tok) (c # cs) = tok" by simp
        with False "2.prems"(1) show False by simp
      next
        case 2
        from 2(1) "2.prems"(4) have "length w \<le> length rep" by simp
        with 2(3) have "w = take (length w) rep"
          by (metis append_eq_conv_conj take_append take_all_iff diff_is_0_eq take_0 append_Nil2)
        then have "set w \<subseteq> set rep" by (metis set_take_subset)
        moreover from 2(1,2) have "last tok = last w" by simp
        moreover from 2(2) have "last w \<in> set w" by simp
        ultimately show False using "2.prems"(3) by auto
      qed
    qed
  qed
qed

lemma replace_all_BASE_HREF_clean:
  "\<not> occurs ''%%BASE_HREF%%'' (replace_all ''%%BASE_HREF%%'' ''/AndroidAssetStudio/'' s)"
  by (rule replace_all_clean) simp_all

lemma set_update: "set (AList.update k v al) \<subseteq> insert (k, v) (set al)"
  by (induction al) auto

lemma dest_new:
  "(q, c) \<in> set (dest dir files t) \<Longrightarrow>
   (q, c) \<in> set t \<or> (\<exists>f \<in> set files. q = dir @ ''/'' @ relative f \<and> c = contents f)"
  unfolding dest_def
proof (induction files arbitrary: t)
  case Nil
  then show ?case by simp
next
  case (Cons f files)
  from Cons.prems have "(q, c) \<in> set (fold (\<lambda>f. AList.update (dir @ ''/'' @ relative f) (contents f))
      files (AList.update (dir @ ''/'' @ relative f) (contents f) t))" by simp
  from Cons.IH [OF this] consider
    "(q, c) \<in> set (AList.update (dir @ ''/'' @ relative f) (contents f) t)"
    | "\<exists>g \<in> set files. q = dir @ ''/'' @ relative g \<and> c = contents g" by blast
  then show ?case
  proof cases
    case 1
    with set_update [of "dir @ ''/'' @ relative f" "contents f" t] show ?thesis by auto
  next
    case 2
    then show ?thesis by auto
  qed
qed

lemma until_error_set:
  "y \<in> set (fst (until_error f xs)) \<Longrightarrow> \<exists>x \<in> set xs. f x = Inr y"
  by (induction xs) (auto split: sum.splits prod.splits)

lemma html_rendered_fs: "html_rendered X s = (ys, s2) \<Longrightarrow> fs s2 = fs s"
  by (auto simp: html_rendered_def html_contexts_def Let_def split: prod.splits
      dest!: handled_fs)

lemma task_html_fs:
  "fs (snd (task_html X s)) =
     dest ''dist'' (fst (until_error (html_minify X) (fst (html_replaced X s))))
       (dest ''.tmp'' (fst (html_replaced X s)) (fs s))"
proof -
  obtain files4 s2 where r: "html_rendered X s = (files4, s2)" by (cases "html_rendered X s")
  then have "fs s2 = fs s" by (rule html_rendered_fs)
  with r show ?thesis
    by (simp add: task_html_def html_replaced_def Let_def case_prod_unfold)
qed

lemma html_replaced_clean:
  assumes "BASE_HREF s = ''/AndroidAssetStudio/''" and "f \<in> set (fst (html_replaced X s))"
  shows "\<not> occurs ''%%BASE_HREF%%'' (contents f)"
  using assms by (auto simp: html_replaced_def replace_all_BASE_HREF_clean split: prod.splits)

text \<open>
  C6.  With the base path of the gulpfile, the files the html step hands to \<open>gulp.dest\<close>
  are the rendered pages with the placeholder replaced, and no occurrence of the
  placeholder is left in them.  Whatever the step adds to the file tree is such a file,
  written to \<open>.tmp\<close> as it is and to \<open>dist\<close> after the minifier.
\<close>

theorem placeholder_replaced:
  assumes "BASE_HREF s = ''/AndroidAssetStudio/''"
  shows "fst (html_replaced X s) =
           map (\<lambda>f. f\<lparr>contents := replace_all ''%%BASE_HREF%%'' ''/AndroidAssetStudio/'' (contents f)\<rparr>)
             (fst (html_rendered X s))
         \<and> (\<forall>f \<in> set (fst (html_replaced X s)). \<not> occurs ''%%BASE_HREF%%'' (contents f))
         \<and> ((q, c) \<in> set (fs (snd (task_html X s))) \<and> (q, c) \<notin> set (fs s) \<longrightarrow>
              (\<exists>f \<in> set (fst (html_replaced X s)).
                  \<not> occurs ''%%BASE_HREF%%'' (contents f)
                  \<and> (q = ''.tmp/'' @ relative f \<and> c = contents f
                     \<or> q = ''dist/'' @ relative f
                        \<and> (c = contents f \<or> minifyHtml X (contents f) = Inr c))))"
proof (intro conjI impI)
  show "fst (html_replaced X s) =
           map (\<lambda>f. f\<lparr>contents := replace_all ''%%BASE_HREF%%'' ''/AndroidAssetStudio/'' (contents f)\<rparr>)
             (fst (html_rendered X s))"
    using assms by (simp add: html_replaced_def split: prod.splits)
  show "\<forall>f \<in> set (fst (html_replaced X s)). \<not> occurs ''%%BASE_HREF%%'' (contents f)"
    using html_replaced_clean [OF assms] by blast
  assume n: "(q, c) \<in> set (fs (snd (task_html X s))) \<and> (q, c) \<notin> set (fs s)"
  let ?R = "fst (html_replaced X s)"
  let ?M = "fst (until_error (html_minify X) ?R)"
  from n have "(q, c) \<in> set (dest ''dist'' ?M (dest ''.tmp'' ?R (fs s)))"
    by (simp add: task_html_fs)
  from dest_new [OF this] n consider
    "(q, c) \<in> set (dest ''.tmp'' ?R (fs s))"
    | g where "g \<in> set ?M" "q = ''dist'' @ ''/'' @ relative g" "c = contents g" by blast
  then show "\<exists>f \<in> set ?R. \<not> occurs ''%%BASE_HREF%%'' (contents f)
                  \<and> (q = ''.tmp/'' @ relative f \<and> c = contents f
                     \<or> q = ''dist/'' @ relative f
                        \<and> (c = contents f \<or> minifyHtml X (contents f) = Inr c))"
  proof cases
    case 1
    from dest_new [OF 1] n obtain f where
      f: "f \<in> set ?R" "q = ''.tmp'' @ ''/'' @ relative f" "c = contents f" by blast
    with html_replaced_clean [OF assms f(1)] show ?thesis by auto
  next
    case 2
    from until_error_set [OF 2(1)] obtain f where f: "f \<in> set ?R" "html_minify X f = Inr g"
      by blast
    from f(2) have "relative g = relative f
        \<and> (contents g = contents f \<or> minifyHtml X (contents f) = Inr (contents g))"
      by (auto simp: html_minify_def on_contents_def relative_def split: if_splits sum.splits)
    with 2 f(1) html_replaced_clean [OF assms f(1)] show ?thesis by auto
  qed
qed

theorem placeholder_replaced_witness:
  "BASE_HREF (load demo_tree) = ''/AndroidAssetStudio/''
   \<and> map contents (fst (html_rendered demo_ext (load demo_tree)))
       = [''<base href=%%BASE_HREF%%>'', ''b'']
   \<and> map contents (fst (html_replaced demo_ext (load demo_tree)))
       = [''<base href=/AndroidAssetStudio/>'', ''b'']
   \<and> list_all (\<lambda>f. \<not> occurs ''%%BASE_HREF%%'' (contents f))
        (fst (html_replaced demo_ext (load demo_tree)))
   \<and> map_of (fs (snd (task_html demo_ext (load demo_tree)))) ''.tmp/a.html''
       = Some ''<base href=/AndroidAssetStudio/>''"
proof -
  have h: "BASE_HREF (load demo_tree) = ''/AndroidAssetStudio/''" by (simp add: load_def)
  have a: "map contents (fst (html_rendered demo_ext (load demo_tree)))
       = [''<base href=%%BASE_HREF%%>'', ''b'']" by code_simp
  have b: "map contents (fst (html_replaced demo_ext (load demo_tree)))
       = [''<base href=/AndroidAssetStudio/>'', ''b'']" by code_simp
  have c: "map_of (fs (snd (task_html demo_ext (load demo_tree)))) ''.tmp/a.html''
       = Some ''<base href=/AndroidAssetStudio/>''" by code_simp
  from placeholder_replaced [OF h, of demo_ext]
  have d: "list_all (\<lambda>f. \<not> occurs ''%%BASE_HREF%%'' (contents f))
        (fst (html_replaced demo_ext (load demo_tree)))"
    by (simp add: list_all_iff)
  show ?thesis by (intro conjI h a b c d)
qed

subsection \<open>The input selection of the html step\<close>




























subsection \<open>The pages collection\<close>










subsection \<open>Building twice\<close>

lemma handled_snd_fields [simp]:
  "DEV_MODE (snd (handled f xs s)) = DEV_MODE s" "BASE_HREF (snd (handled f xs s)) = BASE_HREF s"
  "fs (snd (handled f xs s)) = fs s" "cache (snd (handled f xs s)) = cache s"
  using handled_cases [of f xs s] by (auto simp: errorHandler_def)

lemma core_say [simp]: "core (say evs s) = core s"
  by (simp add: core_def)












































subsection \<open>Cyclic step graphs\<close>





















end
